theory Spec2Isabelle
  imports Main "HOL-Library.AList"
begin

section \<open>Values and trees\<close>

text \<open>
  The Sheet class works on the object trees the XML parser returns. A repeated child
  element is an array there, a single occurrence is the bare object, and a child that does
  not occur is \<^verbatim>\<open>undefined\<close>: the three shapes of \<open>child\<close>. Numbers are the
  integral ones (row numbers, offsets, integer cell values) up to \<open>2 ^ 53\<close> in size, which
  a double holds exactly and \<^verbatim>\<open>Number.prototype.toString\<close> writes digit by digit in decimal;
  larger, fractional and non-finite numbers are left out.
  A string is a list of 8-bit characters; the characters the code tests for (\<^verbatim>\<open>A-Z\<close>
  and \<^verbatim>\<open>0-9\<close>) are ASCII.
\<close>

datatype error =
    InvalidCellName
  | TypeError
  | FileNotExist
  | NotExcel
  | SharedStringsNotFound
  | SheetNotFound nat

datatype jsval = Num int | Str string

datatype 'a child = Absent | Single 'a | Many "'a list"

text \<open>A cell object: \<^verbatim>\<open>@_r\<close>, \<^verbatim>\<open>v\<close>, \<^verbatim>\<open>@_t\<close> and \<^verbatim>\<open>f\<close>; \<open>None\<close> is a property the object does not have.\<close>

record cell =
  cell_r :: string
  cell_v :: "jsval option"
  cell_t :: "string option"
  cell_f :: "jsval option"

text \<open>A row object: \<^verbatim>\<open>@_r\<close> (a string from the parser, a number when setCell made the row) and \<^verbatim>\<open>c\<close>.\<close>

record row =
  row_r :: jsval
  row_c :: "cell child"

text \<open>
  A shared-string item: its \<^verbatim>\<open>t\<close>, a string, or \<open>None\<close> for an item without one. (A text
  the parser would read as a number is outside the model.)
\<close>

record si =
  si_t :: "string option"

text \<open>
  A Sheet: \<^verbatim>\<open>_index\<close>, \<^verbatim>\<open>_data\<close> (the child \<^verbatim>\<open>worksheet.sheetData.row\<close>) and
  \<^verbatim>\<open>_stringTable\<close> (the child \<^verbatim>\<open>sst.si\<close>). Both trees are shared with the workbook and
  mutated in place, so every operation that writes returns the Sheet it leaves behind,
  also when it throws.
\<close>

record Sheet =
  s_index :: nat
  s_data :: "row child"
  s_stringTable :: "si child"

datatype kind = KString | KFormula

section \<open>Cell names and numbers\<close>

definition is_upper :: "char \<Rightarrow> bool" where
  "is_upper ch = (ch \<in> set ''ABCDEFGHIJKLMNOPQRSTUVWXYZ'')"

definition is_digit :: "char \<Rightarrow> bool" where
  "is_digit ch = (ch \<in> set ''0123456789'')"

text \<open>
  \<^verbatim>\<open>cell_name.match(/^[A-Z]+\d+$/)\<close>: the letter run is taken greedily; a shorter run would
  leave a letter where a digit must stand, so the match succeeds exactly when the longest
  letter prefix is not empty and what follows is a non-empty run of digits up to the end.
\<close>

definition valid_cell_name :: "string \<Rightarrow> bool" where
  "valid_cell_name cell_name =
     (let cols = takeWhile is_upper cell_name; rest = dropWhile is_upper cell_name
      in cols \<noteq> [] \<and> rest \<noteq> [] \<and> list_all is_digit rest)"

definition digit_val :: "char \<Rightarrow> nat" where
  "digit_val ch = of_char ch - 48"

definition nat_of_digits :: "string \<Rightarrow> nat" where
  "nat_of_digits ds = foldl (\<lambda>n ch. 10 * n + digit_val ch) 0 ds"

text \<open>
  \<^verbatim>\<open>parseInt(cell_name.match(/\d+/g)![0])\<close>: the first maximal run of digits, read in
  decimal. (Above \<open>2 ^ 53\<close> parseInt rounds to a double; such row numbers are left out.)
\<close>

definition first_digits :: "string \<Rightarrow> string" where
  "first_digits cell_name = takeWhile is_digit (dropWhile (\<lambda>ch. \<not> is_digit ch) cell_name)"

definition row_number :: "string \<Rightarrow> int" where
  "row_number cell_name = int (nat_of_digits (first_digits cell_name))"

definition digit_char :: "nat \<Rightarrow> char" where
  "digit_char d = ''0123456789'' ! d"

fun string_of_nat :: "nat \<Rightarrow> string" where
  "string_of_nat n =
     (if n < 10 then [digit_char n]
      else string_of_nat (n div 10) @ [digit_char (n mod 10)])"

declare string_of_nat.simps [simp del]

text \<open>\<^verbatim>\<open>value.toString()\<close> of an integral number up to \<open>2 ^ 53\<close> in size.\<close>

definition toString :: "int \<Rightarrow> string" where
  "toString n = (if n < 0 then CHR ''-'' # string_of_nat (nat (- n)) else string_of_nat (nat n))"

text \<open>
  The property key \<^verbatim>\<open>stringTable[k]\<close> reads: a number that is a non-negative integer, or a
  string that is the canonical decimal form of one, is an element index; every other key
  names no element. (The array's own members, such as \<^verbatim>\<open>length\<close>, are not modelled: a
  cell whose \<^verbatim>\<open>v\<close> is such a name is outside the model.)
\<close>

definition canonical_index :: "string \<Rightarrow> bool" where
  "canonical_index ds = (ds \<noteq> [] \<and> list_all is_digit ds \<and> (ds = ''0'' \<or> hd ds \<noteq> CHR ''0''))"

definition array_index :: "jsval \<Rightarrow> nat option" where
  "array_index k =
     (case k of
        Num n \<Rightarrow> if 0 \<le> n then Some (nat n) else None
      | Str ds \<Rightarrow> if canonical_index ds then Some (nat_of_digits ds) else None)"

text \<open>\<^verbatim>\<open>stringTable[_cell.v] || null\<close>: a missing element, a missing text and the empty text are all null.\<close>

definition table_lookup :: "string option list \<Rightarrow> jsval option \<Rightarrow> string option" where
  "table_lookup tbl v =
     (case v of
        None \<Rightarrow> None
      | Some k \<Rightarrow>
          (case array_index k of
             None \<Rightarrow> None
           | Some i \<Rightarrow>
               if i < length tbl
               then (case tbl ! i of None \<Rightarrow> None | Some s \<Rightarrow> if s = [] then None else Some s)
               else None))"

section \<open>Sheet.getCell\<close>

text \<open>
  \<^verbatim>\<open>Array.isArray(row.c) ? row.c : [row.c]\<close>: a bare cell becomes a one-element array, and a
  row without cells becomes the array holding \<^verbatim>\<open>undefined\<close> (\<open>None\<close>).
\<close>

definition cells :: "row \<Rightarrow> cell option list" where
  "cells r = (case row_c r of Many cs \<Rightarrow> map Some cs | Single c \<Rightarrow> [Some c] | Absent \<Rightarrow> [None])"

text \<open>The inner loop: the first cell whose \<^verbatim>\<open>@_r\<close> is the name; reading \<^verbatim>\<open>@_r\<close> of \<^verbatim>\<open>undefined\<close> throws.\<close>

fun scan_cells :: "cell option list \<Rightarrow> string \<Rightarrow> error + cell option" where
  "scan_cells [] cell_name = Inr None"
| "scan_cells (None # cs) cell_name = Inl TypeError"
| "scan_cells (Some c # cs) cell_name =
     (if cell_r c = cell_name then Inr (Some c) else scan_cells cs cell_name)"

fun scan_rows :: "row list \<Rightarrow> string \<Rightarrow> error + cell option" where
  "scan_rows [] cell_name = Inr None"
| "scan_rows (r # rs) cell_name =
     (case scan_cells (cells r) cell_name of
        Inl e \<Rightarrow> Inl e
      | Inr (Some c) \<Rightarrow> Inr (Some c)
      | Inr None \<Rightarrow> scan_rows rs cell_name)"

text \<open>
  getCell: the name is checked first; \<^verbatim>\<open>sst.si.map\<close> throws unless \<^verbatim>\<open>si\<close> is an array, and
  the loop over \<^verbatim>\<open>sheetData.row\<close> throws unless that is an array. The type marker \<^verbatim>\<open>@_t\<close>
  is not read.
\<close>

definition getCell :: "Sheet \<Rightarrow> string \<Rightarrow> error + string option" where
  "getCell s cell_name =
     (if \<not> valid_cell_name cell_name then Inl InvalidCellName
      else case s_stringTable s of
        Many sis \<Rightarrow>
          (case s_data s of
             Many sheetData \<Rightarrow>
               (case scan_rows sheetData cell_name of
                  Inl e \<Rightarrow> Inl e
                | Inr None \<Rightarrow> Inr None
                | Inr (Some c) \<Rightarrow> Inr (table_lookup (map si_t sis) (cell_v c)))
           | _ \<Rightarrow> Inl TypeError)
      | _ \<Rightarrow> Inl TypeError)"

section \<open>Sheet._getSharedString\<close>

text \<open>\<^verbatim>\<open>stringTable.indexOf(old_value)\<close>: the first offset whose text is the value.\<close>

fun indexOf :: "string option list \<Rightarrow> string \<Rightarrow> nat option" where
  "indexOf [] x = None"
| "indexOf (y # ys) x =
     (if y = Some x then Some 0 else map_option Suc (indexOf ys x))"

definition getSharedString :: "Sheet \<Rightarrow> string \<Rightarrow> string \<Rightarrow> (error + nat) \<times> Sheet" where
  "getSharedString s old_value val =
     (case s_stringTable s of
        Many sis \<Rightarrow>
          (case indexOf (map si_t sis) old_value of
             Some i \<Rightarrow> (Inr i, s\<lparr>s_stringTable := Many (sis[i := (sis ! i)\<lparr>si_t := Some val\<rparr>])\<rparr>)
           | None \<Rightarrow> (Inr (length sis), s\<lparr>s_stringTable := Many (sis @ [\<lparr>si_t = Some val\<rparr>])\<rparr>))
      | _ \<Rightarrow> (Inl TypeError, s))"

section \<open>Sheet.setCell\<close>

text \<open>
  \<^verbatim>\<open>sheetData.find(row => cells.some(cell => cell['@_r'] === cell_name))\<close>: the position of
  the first row that holds a cell of that name. The row's own \<^verbatim>\<open>@_r\<close> is not read.
\<close>

fun find_row :: "row list \<Rightarrow> string \<Rightarrow> error + nat option" where
  "find_row [] cell_name = Inr None"
| "find_row (r # rs) cell_name =
     (case scan_cells (cells r) cell_name of
        Inl e \<Rightarrow> Inl e
      | Inr (Some c) \<Rightarrow> Inr (Some 0)
      | Inr None \<Rightarrow>
          (case find_row rs cell_name of
             Inl e \<Rightarrow> Inl e
           | Inr found \<Rightarrow> Inr (map_option Suc found)))"

text \<open>\<^verbatim>\<open>target.c.find(cell => cell['@_r'] === cell_name)\<close> on an array of cells.\<close>

fun find_cell :: "cell list \<Rightarrow> string \<Rightarrow> nat option" where
  "find_cell [] cell_name = None"
| "find_cell (c # cs) cell_name =
     (if cell_r c = cell_name then Some 0 else map_option Suc (find_cell cs cell_name))"

definition new_cell :: "string \<Rightarrow> cell" where
  "new_cell cell_name = \<lparr>cell_r = cell_name, cell_v = None, cell_t = None, cell_f = None\<rparr>"

definition new_row :: "string \<Rightarrow> row" where
  "new_row cell_name = \<lparr>row_r = Num (row_number cell_name), row_c = Many []\<rparr>"

text \<open>
  The first half of setCell, up to \<^verbatim>\<open>target.c.push(targetCell)\<close>: the rows as they are left,
  and the positions of the target row and the target cell. \<^verbatim>\<open>target.c.find\<close> throws when
  the target row's \<^verbatim>\<open>c\<close> is a bare cell.
\<close>

definition locate :: "row list \<Rightarrow> string \<Rightarrow> (error + nat \<times> nat) \<times> row list" where
  "locate sheetData cell_name =
     (case find_row sheetData cell_name of
        Inl e \<Rightarrow> (Inl e, sheetData)
      | Inr found \<Rightarrow>
          (let (sheetData1, ti) =
                 (case found of
                    Some i \<Rightarrow> (sheetData, i)
                  | None \<Rightarrow> (sheetData @ [new_row cell_name], length sheetData))
           in case row_c (sheetData1 ! ti) of
                Many cs \<Rightarrow>
                  (case find_cell cs cell_name of
                     Some j \<Rightarrow> (Inr (ti, j), sheetData1)
                   | None \<Rightarrow>
                       (Inr (ti, length cs),
                        sheetData1[ti := (sheetData1 ! ti)\<lparr>row_c := Many (cs @ [new_cell cell_name])\<rparr>]))
              | _ \<Rightarrow> (Inl TypeError, sheetData1)))"

definition row_cells :: "row \<Rightarrow> cell list" where
  "row_cells r = (case row_c r of Many cs \<Rightarrow> cs | _ \<Rightarrow> [])"

text \<open>An assignment to properties of \<^verbatim>\<open>targetCell\<close>, the cell at position \<open>ci\<close> of row \<open>ti\<close>.\<close>

definition set_cell :: "row list \<Rightarrow> nat \<Rightarrow> nat \<Rightarrow> (cell \<Rightarrow> cell) \<Rightarrow> row list" where
  "set_cell sheetData ti ci upd =
     sheetData[ti := (sheetData ! ti)
       \<lparr>row_c := Many ((row_cells (sheetData ! ti))[ci := upd (row_cells (sheetData ! ti) ! ci)])\<rparr>]"

definition write_cell :: "Sheet \<Rightarrow> nat \<Rightarrow> nat \<Rightarrow> (cell \<Rightarrow> cell) \<Rightarrow> Sheet" where
  "write_cell s ti ci upd =
     (case s_data s of Many sheetData \<Rightarrow> s\<lparr>s_data := Many (set_cell sheetData ti ci upd)\<rparr> | _ \<Rightarrow> s)"

text \<open>
  setCell. The change event it emits last has no listener in this model. The second
  component is the Sheet the call leaves behind, whether it returns or throws.
\<close>

definition setCell :: "Sheet \<Rightarrow> string \<Rightarrow> jsval \<Rightarrow> kind \<Rightarrow> (error + unit) \<times> Sheet" where
  "setCell s cell_name val type =
     (if \<not> valid_cell_name cell_name then (Inl InvalidCellName, s)
      else case s_data s of
        Many sheetData \<Rightarrow>
          (case locate sheetData cell_name of
             (Inl e, sheetData1) \<Rightarrow> (Inl e, s\<lparr>s_data := Many sheetData1\<rparr>)
           | (Inr (ti, ci), sheetData1) \<Rightarrow>
               (let s1 = s\<lparr>s_data := Many sheetData1\<rparr>
                in case getCell s1 cell_name of
                     Inl e \<Rightarrow> (Inl e, s1)
                   | Inr cur \<Rightarrow>
                       (let currentValue = (case cur of Some str \<Rightarrow> str | None \<Rightarrow> [])
                        in case type of
                             KFormula \<Rightarrow>
                               (Inr (), write_cell s1 ti ci
                                  (\<lambda>c. c\<lparr>cell_f := Some val, cell_v := None, cell_t := None\<rparr>))
                           | KString \<Rightarrow>
                               (case val of
                                  Num n \<Rightarrow>
                                    (Inr (), write_cell s1 ti ci
                                       (\<lambda>c. c\<lparr>cell_v := Some (Str (toString n)), cell_t := None\<rparr>))
                                | Str str \<Rightarrow>
                                    (case getSharedString s1 currentValue str of
                                       (Inl e, s2) \<Rightarrow> (Inl e, s2)
                                     | (Inr stringIndex, s2) \<Rightarrow>
                                         (Inr (), write_cell s2 ti ci
                                            (\<lambda>c. c\<lparr>cell_v := Some (Num (int stringIndex)),
                                                   cell_t := Some ''s''\<rparr>)))))))
      | _ \<Rightarrow> (Inl TypeError, s))"

section \<open>The workbook\<close>

text \<open>
  The archive library, the XML parser and builder and the text codec are outside the
  repository: they are the fields of \<open>codec\<close>, over any type of trees. \<open>build\<close> is given
  \<open>None\<close> where the code passes a tree that was never assigned.
\<close>

type_synonym bytes = "nat list"

type_synonym Unzipped = "(string \<times> bytes) list"

record 'tree codec =
  parse :: "string \<Rightarrow> 'tree"
  build :: "'tree option \<Rightarrow> string"
  decode :: "bytes \<Rightarrow> string"
  encode :: "string \<Rightarrow> bytes"
  zipSync :: "Unzipped \<Rightarrow> bytes"

text \<open>
  A TinyExcel object: \<^verbatim>\<open>_path\<close>, \<^verbatim>\<open>_file\<close> (an object whose keys keep their insertion
  order), \<^verbatim>\<open>_sheets\<close> (a Map, in insertion order) and \<^verbatim>\<open>_sharedStrings\<close>.
\<close>

record 'tree TinyExcel =
  w_path :: string
  w_file :: "Unzipped option"
  w_sheets :: "(nat \<times> 'tree) list"
  w_sharedStrings :: "'tree option"

definition TinyExcel_new :: "string \<Rightarrow> 'tree TinyExcel" where
  "TinyExcel_new path = \<lparr>w_path = path, w_file = None, w_sheets = [], w_sharedStrings = None\<rparr>"

record LoadOptions =
  excludeSheetIndexes :: "nat list option"

definition startsWith :: "string \<Rightarrow> string \<Rightarrow> bool" where
  "startsWith pre key = (take (length pre) key = pre)"

definition endsWith :: "string \<Rightarrow> string \<Rightarrow> bool" where
  "endsWith suf key = (length suf \<le> length key \<and> drop (length key - length suf) key = suf)"

definition sheet_keys :: "Unzipped \<Rightarrow> string list" where
  "sheet_keys f = filter (startsWith ''xl/worksheets/sheet'') (map fst f)"

text \<open>\<^verbatim>\<open>options?.excludeSheetIndexes?.includes(i)\<close>\<close>

definition excluded :: "LoadOptions option \<Rightarrow> nat \<Rightarrow> bool" where
  "excluded options i =
     (case options of
        None \<Rightarrow> False
      | Some opts \<Rightarrow> (case excludeSheetIndexes opts of None \<Rightarrow> False | Some xs \<Rightarrow> i \<in> set xs))"

text \<open>The loop of load over \<^verbatim>\<open>sheet_keys\<close>, from index \<open>i\<close> on; \<open>acc\<close> is \<^verbatim>\<open>_sheets\<close>.\<close>

fun load_sheets ::
  "'tree codec \<Rightarrow> Unzipped \<Rightarrow> LoadOptions option \<Rightarrow> string list \<Rightarrow> nat \<Rightarrow>
   (nat \<times> 'tree) list \<Rightarrow> error + (nat \<times> 'tree) list" where
  "load_sheets cd f options [] i acc = Inr acc"
| "load_sheets cd f options (key # keys) i acc =
     (if excluded options i then load_sheets cd f options keys (Suc i) acc
      else case map_of f key of
        None \<Rightarrow> Inl (SheetNotFound i)
      | Some sheetFile \<Rightarrow>
          load_sheets cd f options keys (Suc i)
            (AList.update i (parse cd (decode cd sheetFile)) acc))"

text \<open>
  load, given whether the file exists and what \<^verbatim>\<open>unzipSync\<close> returned for its bytes. The
  second component is the object it leaves behind.
\<close>

definition load ::
  "'tree codec \<Rightarrow> 'tree TinyExcel \<Rightarrow> bool \<Rightarrow> Unzipped \<Rightarrow> LoadOptions option \<Rightarrow>
   (error + unit) \<times> 'tree TinyExcel" where
  "load cd w file_exists unzipped options =
     (if \<not> file_exists then (Inl FileNotExist, w)
      else if \<not> endsWith ''.xlsx'' (w_path w) then (Inl NotExcel, w)
      else
        (let w1 = w\<lparr>w_file := Some unzipped\<rparr>
         in case map_of unzipped ''xl/sharedStrings.xml'' of
              None \<Rightarrow> (Inl SharedStringsNotFound, w1)
            | Some sharedStrings \<Rightarrow>
                (case load_sheets cd unzipped options (sheet_keys unzipped) 0 (w_sheets w1) of
                   Inl e \<Rightarrow> (Inl e, w1)
                 | Inr shs \<Rightarrow>
                     (Inr (),
                      w1\<lparr>w_sheets := shs,
                         w_sharedStrings := Some (parse cd (decode cd sharedStrings))\<rparr>))))"

text \<open>The entry name \<^verbatim>\<open>`xl/worksheets/sheet${index + 1}.xml`\<close>.\<close>

definition sheet_path :: "nat \<Rightarrow> string" where
  "sheet_path index = ''xl/worksheets/sheet'' @ string_of_nat (index + 1) @ ''.xml''"

text \<open>The loop of saveBuffer over \<^verbatim>\<open>_sheets\<close>: each tree is built and stored under its entry name.\<close>

fun write_sheets :: "'tree codec \<Rightarrow> (nat \<times> 'tree) list \<Rightarrow> Unzipped \<Rightarrow> Unzipped" where
  "write_sheets cd [] f = f"
| "write_sheets cd ((index, sheet) # rest) f =
     write_sheets cd rest (AList.update (sheet_path index) (encode cd (build cd (Some sheet))) f)"

text \<open>
  saveBuffer: an assignment to a property of \<^verbatim>\<open>_file\<close> throws when load never set it;
  otherwise the entries are written and the whole set goes to \<^verbatim>\<open>zipSync\<close>.
\<close>

definition saveBuffer :: "'tree codec \<Rightarrow> 'tree TinyExcel \<Rightarrow> (error + bytes) \<times> 'tree TinyExcel" where
  "saveBuffer cd w =
     (case w_file w of
        None \<Rightarrow> (Inl TypeError, w)
      | Some f \<Rightarrow>
          (let f1 = write_sheets cd (w_sheets w) f;
               f2 = AList.update ''xl/sharedStrings.xml''
                      (encode cd (build cd (w_sharedStrings w))) f1
           in (Inr (zipSync cd f2), w\<lparr>w_file := Some f2\<rparr>)))"

section \<open>Notions the properties are stated with\<close>

text \<open>
  The cell-address grammar in the words of the specification, with the row written as a
  run of digits: one or more uppercase letters followed by one or more digits.
\<close>

definition cell_address_grammar :: "string \<Rightarrow> bool" where
  "cell_address_grammar a =
     (\<exists>cols ds. a = cols @ ds \<and> cols \<noteq> [] \<and> ds \<noteq> [] \<and> list_all is_upper cols \<and> list_all is_digit ds)"

fun is_Many :: "'a child \<Rightarrow> bool" where
  "is_Many (Many xs) = True"
| "is_Many (Single x) = False"
| "is_Many Absent = False"

text \<open>A Sheet whose rows, whose rows' cells and whose shared strings are all arrays.\<close>

definition all_sequences :: "Sheet \<Rightarrow> bool" where
  "all_sequences s =
     ((case s_data s of Many rs \<Rightarrow> list_all (\<lambda>r. is_Many (row_c r)) rs | _ \<Rightarrow> False) \<and>
      is_Many (s_stringTable s))"

text \<open>The offset a cell's \<^verbatim>\<open>v\<close> reads the table at, if it is one.\<close>

definition cell_offset :: "cell \<Rightarrow> nat option" where
  "cell_offset c = (case cell_v c of None \<Rightarrow> None | Some k \<Rightarrow> array_index k)"

text \<open>
  The position of the cell both operations work on: row \<open>ti\<close> is the first row that holds
  a cell named \<open>a\<close>, its cells are an array, and \<open>ci\<close> is the first such cell in it.
\<close>

definition target_at :: "row list \<Rightarrow> string \<Rightarrow> nat \<Rightarrow> nat \<Rightarrow> bool" where
  "target_at rs a ti ci =
     (ti < length rs \<and> (\<forall>j<ti. scan_cells (cells (rs ! j)) a = Inr None) \<and>
      row_c (rs ! ti) = Many (row_cells (rs ! ti)) \<and> ci < length (row_cells (rs ! ti)) \<and>
      cell_r (row_cells (rs ! ti) ! ci) = a \<and> (\<forall>k<ci. cell_r (row_cells (rs ! ti) ! k) \<noteq> a))"

text \<open>The tree with every bare cell put into a one-element array.\<close>

definition normalize_row :: "row \<Rightarrow> row" where
  "normalize_row r = (case row_c r of Single c \<Rightarrow> r\<lparr>row_c := Many [c]\<rparr> | _ \<Rightarrow> r)"

definition normalize_cells :: "Sheet \<Rightarrow> Sheet" where
  "normalize_cells s =
     (case s_data s of Many rs \<Rightarrow> s\<lparr>s_data := Many (map normalize_row rs)\<rparr> | _ \<Rightarrow> s)"

text \<open>
  The entries saveBuffer does not write: every name but the shared strings' and the names
  \<^verbatim>\<open>xl/worksheets/sheet(i+1).xml\<close> of the sheets in \<^verbatim>\<open>_sheets\<close>.
\<close>

definition untouched :: "'tree TinyExcel \<Rightarrow> string \<Rightarrow> bool" where
  "untouched w key = (key \<noteq> ''xl/sharedStrings.xml'' \<and> key \<notin> sheet_path ` fst ` set (w_sheets w))"

section \<open>Example sheets\<close>

definition shared_cell :: "string \<Rightarrow> int \<Rightarrow> cell" where
  "shared_cell a k = \<lparr>cell_r = a, cell_v = Some (Num k), cell_t = Some ''s'', cell_f = None\<rparr>"

definition example_rows :: "row list" where
  "example_rows =
     [\<lparr>row_r = Str ''1'', row_c = Many [shared_cell ''A1'' 0, shared_cell ''B1'' 1]\<rparr>,
      \<lparr>row_r = Str ''2'', row_c = Many [shared_cell ''A2'' 0, shared_cell ''B2'' 1]\<rparr>]"

text \<open>Two rows of two cells; A1 and A2 share offset 0 (foo), B1 and B2 share offset 1 (baz).\<close>

definition example_sheet :: Sheet where
  "example_sheet =
     \<lparr>s_index = 0, s_data = Many example_rows,
      s_stringTable = Many [\<lparr>si_t = Some ''foo''\<rparr>, \<lparr>si_t = Some ''baz''\<rparr>]\<rparr>"

text \<open>A table that holds foo twice: A1 and A2 share offset 1, the second foo; B1 and B2 share offset 0.\<close>

definition duplicate_rows :: "row list" where
  "duplicate_rows =
     [\<lparr>row_r = Str ''1'', row_c = Many [shared_cell ''A1'' 1, shared_cell ''B1'' 0]\<rparr>,
      \<lparr>row_r = Str ''2'', row_c = Many [shared_cell ''A2'' 1, shared_cell ''B2'' 0]\<rparr>]"

definition duplicate_sheet :: Sheet where
  "duplicate_sheet =
     \<lparr>s_index = 0, s_data = Many duplicate_rows,
      s_stringTable = Many [\<lparr>si_t = Some ''foo''\<rparr>, \<lparr>si_t = Some ''foo''\<rparr>]\<rparr>"

text \<open>The same rows over a table of one string, which the parser returns as a bare item.\<close>

definition one_string_sheet :: Sheet where
  "one_string_sheet =
     \<lparr>s_index = 0, s_data = Many example_rows, s_stringTable = Single \<lparr>si_t = Some ''foo''\<rparr>\<rparr>"

text \<open>A sheet of one row, which the parser returns as a bare row.\<close>

definition one_row_sheet :: Sheet where
  "one_row_sheet =
     \<lparr>s_index = 0, s_data = Single (hd example_rows),
      s_stringTable = Many [\<lparr>si_t = Some ''foo''\<rparr>, \<lparr>si_t = Some ''baz''\<rparr>]\<rparr>"

text \<open>The first row's second cell alone in its row: the parser returns it bare.\<close>

definition bare_cell_sheet :: Sheet where
  "bare_cell_sheet =
     \<lparr>s_index = 0,
      s_data = Many [\<lparr>row_r = Str ''1'', row_c = Single (shared_cell ''B1'' 1)\<rparr>,
                     \<lparr>row_r = Str ''2'', row_c = Many [shared_cell ''A2'' 0, shared_cell ''B2'' 1]\<rparr>],
      s_stringTable = Many [\<lparr>si_t = Some ''foo''\<rparr>, \<lparr>si_t = Some ''baz''\<rparr>]\<rparr>"

section \<open>Example workbooks\<close>

text \<open>A codec to compute with: trees are the XML text itself, bytes are character codes.\<close>

definition example_codec :: "string codec" where
  "example_codec =
     \<lparr>parse = (\<lambda>xml. xml),
      build = (\<lambda>tree. case tree of None \<Rightarrow> [] | Some xml \<Rightarrow> xml),
      decode = map char_of,
      encode = map of_char,
      zipSync = (\<lambda>f. concat (map snd f))\<rparr>"

text \<open>A loaded workbook of one sheet, with a style sheet among its entries.\<close>

definition example_book :: "string TinyExcel" where
  "example_book =
     \<lparr>w_path = ''book.xlsx'',
      w_file = Some [(''xl/worksheets/sheet1.xml'', [1]), (''xl/styles.xml'', [2]),
                     (''xl/sharedStrings.xml'', [3])],
      w_sheets = [(0, ''<worksheet/>'')],
      w_sharedStrings = Some ''<sst/>''\<rparr>"

text \<open>An archive that lists its second worksheet first.\<close>

definition swapped_archive :: Unzipped where
  "swapped_archive =
     [(''xl/worksheets/sheet2.xml'', [2]), (''xl/worksheets/sheet1.xml'', [1]),
      (''xl/sharedStrings.xml'', [3])]"

section \<open>Decimal numerals\<close>

lemma digit_cases: "d < 10 \<Longrightarrow> d \<in> {0, 1, 2, 3, 4, 5, 6, 7, 8, 9::nat}"
  by auto

lemma digit_val_digit_char: "d < 10 \<Longrightarrow> digit_val (digit_char d) = d"
  using digit_cases [of d] by (auto simp: digit_char_def digit_val_def)



lemma nat_of_digits_snoc: "nat_of_digits (ds @ [ch]) = 10 * nat_of_digits ds + digit_val ch"
  by (simp add: nat_of_digits_def)

lemma nat_of_digits_string_of_nat: "nat_of_digits (string_of_nat n) = n"
proof (induction n rule: string_of_nat.induct)
  case (1 n)
  show ?case
  proof (cases "n < 10")
    case True
    then show ?thesis
      by (simp add: string_of_nat.simps [of n] nat_of_digits_def digit_val_digit_char)
  next
    case False
    with 1 show ?thesis
      by (simp add: string_of_nat.simps [of n] nat_of_digits_snoc digit_val_digit_char)
  qed
qed






lemma string_of_nat_inj: "string_of_nat m = string_of_nat n \<Longrightarrow> m = n"
  by (metis nat_of_digits_string_of_nat)




section \<open>Scanning rows and cells\<close>

lemma find_cell_Some:
  "find_cell cs a = Some j \<Longrightarrow> j < length cs \<and> cell_r (cs ! j) = a \<and> (\<forall>k<j. cell_r (cs ! k) \<noteq> a)"
proof (induction cs arbitrary: j)
  case Nil
  then show ?case by simp
next
  case (Cons c cs)
  show ?case
  proof (cases "cell_r c = a")
    case True
    with Cons.prems show ?thesis by simp
  next
    case False
    with Cons.prems obtain j' where j': "find_cell cs a = Some j'" "j = Suc j'"
      by auto
    from Cons.IH [OF j'(1)] False j'(2) show ?thesis
      by (auto simp: nth_Cons split: nat.splits)
  qed
qed

lemma find_cell_None: "find_cell cs a = None \<Longrightarrow> \<forall>k<length cs. cell_r (cs ! k) \<noteq> a"
proof (induction cs)
  case Nil
  then show ?case by simp
next
  case (Cons c cs)
  then show ?case
    by (auto simp: nth_Cons split: if_splits nat.splits)
qed

lemma scan_cells_first:
  "j < length cs \<Longrightarrow> cell_r (cs ! j) = a \<Longrightarrow> \<forall>k<j. cell_r (cs ! k) \<noteq> a \<Longrightarrow>
   scan_cells (map Some cs) a = Inr (Some (cs ! j))"
proof (induction cs arbitrary: j)
  case Nil
  then show ?case by simp
next
  case (Cons c cs)
  show ?case
  proof (cases j)
    case 0
    with Cons.prems show ?thesis by simp
  next
    case (Suc j')
    with Cons.prems have "cell_r c \<noteq> a" by auto
    moreover have "scan_cells (map Some cs) a = Inr (Some (cs ! j'))"
      using Cons.prems Suc by (intro Cons.IH) auto
    ultimately show ?thesis using Suc by simp
  qed
qed

lemma scan_cells_none:
  "\<forall>k<length cs. cell_r (cs ! k) \<noteq> a \<Longrightarrow> scan_cells (map Some cs) a = Inr None"
proof (induction cs)
  case Nil
  then show ?case by simp
next
  case (Cons c cs)
  from Cons.prems have "cell_r c \<noteq> a" by auto
  moreover from Cons.prems have "\<forall>k<length cs. cell_r (cs ! k) \<noteq> a" by auto
  ultimately show ?case using Cons.IH by simp
qed

lemma scan_rows_first:
  "i < length rs \<Longrightarrow> \<forall>j<i. scan_cells (cells (rs ! j)) a = Inr None \<Longrightarrow>
   scan_cells (cells (rs ! i)) a = Inr (Some c) \<Longrightarrow> scan_rows rs a = Inr (Some c)"
proof (induction rs arbitrary: i)
  case Nil
  then show ?case by simp
next
  case (Cons r rs)
  show ?case
  proof (cases i)
    case 0
    with Cons.prems show ?thesis by simp
  next
    case (Suc i')
    with Cons.prems have "scan_cells (cells r) a = Inr None" by auto
    moreover have "scan_rows rs a = Inr (Some c)"
      using Cons.prems Suc by (intro Cons.IH [of i']) auto
    ultimately show ?thesis by simp
  qed
qed

lemma find_row_Some:
  "find_row rs a = Inr (Some i) \<Longrightarrow>
   i < length rs \<and> (\<forall>j<i. scan_cells (cells (rs ! j)) a = Inr None) \<and>
   (\<exists>c. scan_cells (cells (rs ! i)) a = Inr (Some c))"
proof (induction rs arbitrary: i)
  case Nil
  then show ?case by simp
next
  case (Cons r rs)
  show ?case
  proof (cases "scan_cells (cells r) a")
    case (Inl e)
    with Cons.prems show ?thesis by simp
  next
    case (Inr found)
    show ?thesis
    proof (cases found)
      case None
      with Inr Cons.prems obtain i' where i': "find_row rs a = Inr (Some i')" "i = Suc i'"
        by (auto split: sum.splits)
      from Cons.IH [OF i'(1)] Inr None i'(2) show ?thesis
        by (auto simp: nth_Cons split: nat.splits)
    next
      case (Some c)
      with Inr Cons.prems show ?thesis by auto
    qed
  qed
qed

lemma find_row_None:
  "find_row rs a = Inr None \<Longrightarrow> \<forall>j<length rs. scan_cells (cells (rs ! j)) a = Inr None"
proof (induction rs)
  case Nil
  then show ?case by simp
next
  case (Cons r rs)
  then show ?case
    by (auto simp: nth_Cons split: sum.splits option.splits nat.splits)
qed

lemma scan_cells_Many_Some:
  "scan_cells (map Some cs) a = Inr (Some c) \<Longrightarrow> \<exists>j. find_cell cs a = Some j"
  by (induction cs) (auto split: if_splits)

lemma scan_cells_Single_not_Many:
  "scan_cells (cells r) a = Inr (Some c) \<Longrightarrow> row_c r \<noteq> Absent"
  by (auto simp: cells_def)

section \<open>The target cell of setCell\<close>

lemma locate_new:
  "find_row rs a = Inr None \<Longrightarrow>
   locate rs a = (Inr (length rs, 0), rs @ [\<lparr>row_r = Num (row_number a), row_c = Many [new_cell a]\<rparr>])"
  by (simp add: locate_def new_row_def)

lemma locate_found:
  assumes "find_row rs a = Inr (Some i)"
  shows "locate rs a =
           (case row_c (rs ! i) of
              Many cs \<Rightarrow> (Inr (i, the (find_cell cs a)), rs)
            | _ \<Rightarrow> (Inl TypeError, rs))"
proof (cases "row_c (rs ! i)")
  case Absent
  with assms show ?thesis by (simp add: locate_def)
next
  case (Single c)
  with assms show ?thesis by (simp add: locate_def)
next
  case (Many cs)
  from find_row_Some [OF assms] obtain c where "scan_cells (cells (rs ! i)) a = Inr (Some c)"
    by blast
  with Many have "scan_cells (map Some cs) a = Inr (Some c)"
    by (simp add: cells_def)
  then obtain j where "find_cell cs a = Some j"
    using scan_cells_Many_Some by blast
  with assms Many show ?thesis by (simp add: locate_def)
qed

lemma locate_error_unchanged: "locate rs a = (Inl e, rs1) \<Longrightarrow> rs1 = rs"
proof (cases "find_row rs a")
  case (Inl e')
  assume "locate rs a = (Inl e, rs1)"
  with Inl show ?thesis by (simp add: locate_def)
next
  case (Inr found)
  assume l: "locate rs a = (Inl e, rs1)"
  show ?thesis
  proof (cases found)
    case None
    with Inr l show ?thesis by (simp add: locate_new)
  next
    case (Some i)
    with Inr l show ?thesis
      by (auto simp: locate_found split: child.splits)
  qed
qed

lemma locate_target:
  assumes "locate rs a = (Inr (ti, ci), rs1)"
  shows "target_at rs1 a ti ci"
proof (cases "find_row rs a")
  case (Inl e)
  with assms show ?thesis by (simp add: locate_def)
next
  case (Inr found)
  show ?thesis
  proof (cases found)
    case None
    with Inr have fr: "find_row rs a = Inr None" by simp
    from assms locate_new [OF fr]
    have eq: "ti = length rs" "ci = 0"
      "rs1 = rs @ [\<lparr>row_r = Num (row_number a), row_c = Many [new_cell a]\<rparr>]"
      by simp_all
    from find_row_None [OF fr] show ?thesis
      unfolding eq target_at_def
      by (simp add: nth_append row_cells_def new_cell_def)
  next
    case (Some i)
    with Inr have fr: "find_row rs a = Inr (Some i)" by simp
    from assms locate_found [OF fr] obtain cs where
      cs: "row_c (rs ! i) = Many cs" and eq: "ti = i" "ci = the (find_cell cs a)" "rs1 = rs"
      by (auto split: child.splits)
    from find_row_Some [OF fr] obtain c where
      i: "i < length rs" "\<forall>j<i. scan_cells (cells (rs ! j)) a = Inr None"
      and c: "scan_cells (cells (rs ! i)) a = Inr (Some c)"
      by blast
    from c cs have "scan_cells (map Some cs) a = Inr (Some c)"
      by (simp add: cells_def)
    then obtain j where j: "find_cell cs a = Some j"
      using scan_cells_Many_Some by blast
    from find_cell_Some [OF j] i cs j show ?thesis
      unfolding eq target_at_def by (simp add: row_cells_def)
  qed
qed

lemma scan_target:
  assumes "target_at rs a ti ci"
  shows "scan_rows rs a = Inr (Some (row_cells (rs ! ti) ! ci))"
proof -
  from assms have "scan_cells (map Some (row_cells (rs ! ti))) a = Inr (Some (row_cells (rs ! ti) ! ci))"
    unfolding target_at_def by (intro scan_cells_first) auto
  moreover from assms have "cells (rs ! ti) = map Some (row_cells (rs ! ti))"
    unfolding target_at_def by (simp add: cells_def)
  ultimately show ?thesis
    using assms unfolding target_at_def by (intro scan_rows_first [of ti]) auto
qed

lemma set_cell_target:
  assumes "target_at rs a ti ci" and "cell_r (upd (row_cells (rs ! ti) ! ci)) = a"
  shows "target_at (set_cell rs ti ci upd) a ti ci"
    and "row_cells (set_cell rs ti ci upd ! ti) ! ci = upd (row_cells (rs ! ti) ! ci)"
  using assms unfolding target_at_def set_cell_def
  by (simp_all add: row_cells_def nth_list_update)

lemma getCell_target:
  assumes "valid_cell_name a" "s_data s = Many rs" "s_stringTable s = Many sis"
    and "target_at rs a ti ci"
  shows "getCell s a = Inr (table_lookup (map si_t sis) (cell_v (row_cells (rs ! ti) ! ci)))"
  using assms(1-3) scan_target [OF assms(4)] by (simp add: getCell_def)

lemma getCell_write_cell:
  assumes "valid_cell_name a" "s_data s = Many rs" "s_stringTable s = Many sis"
    and "target_at rs a ti ci" and "cell_r (upd (row_cells (rs ! ti) ! ci)) = a"
  shows "getCell (write_cell s ti ci upd) a =
           Inr (table_lookup (map si_t sis) (cell_v (upd (row_cells (rs ! ti) ! ci))))"
proof -
  have "getCell (write_cell s ti ci upd) a =
          Inr (table_lookup (map si_t sis)
                 (cell_v (row_cells (set_cell rs ti ci upd ! ti) ! ci)))"
    using assms(1-3) set_cell_target(1) [of rs a ti ci upd, OF assms(4,5)]
    by (intro getCell_target) (simp_all add: write_cell_def)
  with set_cell_target(2) [of rs a ti ci upd, OF assms(4,5)] show ?thesis by simp
qed

section \<open>The shared-string step and the cases of setCell\<close>

lemma indexOf_Some:
  "indexOf xs x = Some i \<Longrightarrow> i < length xs \<and> xs ! i = Some x \<and> (\<forall>j<i. xs ! j \<noteq> Some x)"
proof (induction xs arbitrary: i)
  case Nil
  then show ?case by simp
next
  case (Cons y ys)
  show ?case
  proof (cases "y = Some x")
    case True
    with Cons.prems show ?thesis by simp
  next
    case False
    with Cons.prems obtain i' where i': "indexOf ys x = Some i'" "i = Suc i'"
      by auto
    from Cons.IH [OF i'(1)] False i'(2) show ?thesis
      by (auto simp: nth_Cons split: nat.splits)
  qed
qed

lemma indexOf_None: "indexOf xs x = None \<longleftrightarrow> Some x \<notin> set xs"
  by (induction xs) auto

lemma indexOf_first:
  "i < length xs \<Longrightarrow> xs ! i = Some x \<Longrightarrow> \<forall>j<i. xs ! j \<noteq> Some x \<Longrightarrow> indexOf xs x = Some i"
proof -
  assume a: "i < length xs" "xs ! i = Some x" "\<forall>j<i. xs ! j \<noteq> Some x"
  then have "Some x \<in> set xs" by (metis nth_mem)
  then obtain k where k: "indexOf xs x = Some k"
    using indexOf_None [of xs x] by (cases "indexOf xs x") auto
  from indexOf_Some [OF k] a have "k = i"
    by (metis linorder_neqE_nat)
  with k show ?thesis by simp
qed

lemma si_update: "r\<lparr>si_t := Some v\<rparr> = \<lparr>si_t = Some v\<rparr>"
  by (cases r) simp

lemma getSharedString_Many:
  "s_stringTable s = Many sis \<Longrightarrow>
   getSharedString s old_value v =
     (case indexOf (map si_t sis) old_value of
        Some i \<Rightarrow> (Inr i, s\<lparr>s_stringTable := Many (sis[i := \<lparr>si_t = Some v\<rparr>])\<rparr>)
      | None \<Rightarrow> (Inr (length sis), s\<lparr>s_stringTable := Many (sis @ [\<lparr>si_t = Some v\<rparr>])\<rparr>))"
  by (simp add: getSharedString_def si_update split: option.splits)

lemma getSharedString_not_Many:
  "\<forall>sis. s_stringTable s \<noteq> Many sis \<Longrightarrow> getSharedString s old_value v = (Inl TypeError, s)"
  by (cases "s_stringTable s") (simp_all add: getSharedString_def)

lemma getSharedString_result:
  assumes "s_stringTable s = Many sis"
  shows "\<exists>idx sis'. getSharedString s old_value v = (Inr idx, s\<lparr>s_stringTable := Many sis'\<rparr>) \<and>
           idx < length sis' \<and> si_t (sis' ! idx) = Some v"
proof (cases "indexOf (map si_t sis) old_value")
  case None
  with assms have "getSharedString s old_value v =
      (Inr (length sis), s\<lparr>s_stringTable := Many (sis @ [\<lparr>si_t = Some v\<rparr>])\<rparr>)"
    by (simp add: getSharedString_Many)
  moreover have "length sis < length (sis @ [\<lparr>si_t = Some v\<rparr>])"
    "si_t ((sis @ [\<lparr>si_t = Some v\<rparr>]) ! length sis) = Some v"
    by simp_all
  ultimately show ?thesis by blast
next
  case (Some i)
  from indexOf_Some [OF Some] have i: "i < length sis" by simp
  from Some assms have "getSharedString s old_value v =
      (Inr i, s\<lparr>s_stringTable := Many (sis[i := \<lparr>si_t = Some v\<rparr>])\<rparr>)"
    by (simp add: getSharedString_Many)
  moreover from i have "i < length (sis[i := \<lparr>si_t = Some v\<rparr>])"
    "si_t (sis[i := \<lparr>si_t = Some v\<rparr>] ! i) = Some v"
    by simp_all
  ultimately show ?thesis by blast
qed

lemma setCell_invalid:
  "\<not> valid_cell_name a \<Longrightarrow> setCell s a v k = (Inl InvalidCellName, s)"
  by (simp add: setCell_def)

lemma setCell_rows_not_Many:
  "valid_cell_name a \<Longrightarrow> \<forall>rs. s_data s \<noteq> Many rs \<Longrightarrow> setCell s a v k = (Inl TypeError, s)"
  by (cases "s_data s") (simp_all add: setCell_def)

lemma setCell_locate_error:
  assumes "valid_cell_name a" "s_data s = Many rs" "locate rs a = (Inl e, rs1)"
  shows "setCell s a v k = (Inl e, s)"
proof -
  from locate_error_unchanged [OF assms(3)] have "rs1 = rs" .
  moreover from assms(2) have "s\<lparr>s_data := Many rs\<rparr> = s" by (cases s) simp
  ultimately show ?thesis using assms by (simp add: setCell_def)
qed

lemma setCell_table_not_Many:
  assumes "valid_cell_name a" "s_data s = Many rs" "locate rs a = (Inr (ti, ci), rs1)"
    and "\<forall>sis. s_stringTable s \<noteq> Many sis"
  shows "setCell s a v k = (Inl TypeError, s\<lparr>s_data := Many rs1\<rparr>)"
proof -
  from assms(1,4) have "getCell (s\<lparr>s_data := Many rs1\<rparr>) a = Inl TypeError"
    by (cases "s_stringTable s") (simp_all add: getCell_def)
  with assms(1-3) show ?thesis by (simp add: setCell_def)
qed

lemma getCell_located:
  assumes "valid_cell_name a" "locate rs a = (Inr (ti, ci), rs1)" "s_stringTable s = Many sis"
  shows "getCell (s\<lparr>s_data := Many rs1\<rparr>) a =
           Inr (table_lookup (map si_t sis) (cell_v (row_cells (rs1 ! ti) ! ci)))"
  using assms(1,3) locate_target [OF assms(2)]
  by (intro getCell_target) simp_all

lemma setCell_formula:
  assumes "valid_cell_name a" "s_data s = Many rs" "locate rs a = (Inr (ti, ci), rs1)"
    and "s_stringTable s = Many sis"
  shows "setCell s a v KFormula =
           (Inr (), write_cell (s\<lparr>s_data := Many rs1\<rparr>) ti ci
              (\<lambda>c. c\<lparr>cell_f := Some v, cell_v := None, cell_t := None\<rparr>))"
  using assms(1-3) getCell_located [OF assms(1,3,4)] by (simp add: setCell_def)

lemma setCell_number:
  assumes "valid_cell_name a" "s_data s = Many rs" "locate rs a = (Inr (ti, ci), rs1)"
    and "s_stringTable s = Many sis"
  shows "setCell s a (Num n) KString =
           (Inr (), write_cell (s\<lparr>s_data := Many rs1\<rparr>) ti ci
              (\<lambda>c. c\<lparr>cell_v := Some (Str (toString n)), cell_t := None\<rparr>))"
  using assms(1-3) getCell_located [OF assms(1,3,4)] by (simp add: setCell_def)

lemma setCell_string:
  assumes "valid_cell_name a" "s_data s = Many rs" "locate rs a = (Inr (ti, ci), rs1)"
    and "s_stringTable s = Many sis"
    and "getSharedString (s\<lparr>s_data := Many rs1\<rparr>)
           (case table_lookup (map si_t sis) (cell_v (row_cells (rs1 ! ti) ! ci)) of
              Some text \<Rightarrow> text | None \<Rightarrow> []) v = (Inr idx, s2)"
  shows "setCell s a (Str v) KString =
           (Inr (), write_cell s2 ti ci
              (\<lambda>c. c\<lparr>cell_v := Some (Num (int idx)), cell_t := Some ''s''\<rparr>))"
  using assms(1-3,5) getCell_located [OF assms(1,3,4)] by (simp add: setCell_def)

lemma is_Many_iff: "is_Many ch \<longleftrightarrow> (\<exists>xs. ch = Many xs)"
  by (cases ch) simp_all

lemma scan_cells_no_error: "\<exists>found. scan_cells (map Some cs) a = Inr found"
  by (induction cs) auto

lemma find_row_no_error:
  "list_all (\<lambda>r. is_Many (row_c r)) rs \<Longrightarrow> \<exists>found. find_row rs a = Inr found"
proof (induction rs)
  case Nil
  then show ?case by simp
next
  case (Cons r rs)
  then obtain cs where cs: "row_c r = Many cs" and rest: "list_all (\<lambda>r. is_Many (row_c r)) rs"
    by (auto simp: is_Many_iff)
  obtain f where f: "scan_cells (map Some cs) a = Inr f"
    using scan_cells_no_error by blast
  from Cons.IH [OF rest] obtain g where g: "find_row rs a = Inr g" by blast
  from cs f g show ?case
    by (cases f) (simp_all add: cells_def)
qed

lemma locate_no_error:
  assumes "list_all (\<lambda>r. is_Many (row_c r)) rs"
  shows "\<exists>ti ci rs1. locate rs a = (Inr (ti, ci), rs1)"
proof -
  from find_row_no_error [OF assms] obtain found where f: "find_row rs a = Inr found"
    by blast
  show ?thesis
  proof (cases found)
    case None
    with f locate_new [of rs a] show ?thesis by simp
  next
    case (Some i)
    with f have fr: "find_row rs a = Inr (Some i)" by simp
    from find_row_Some [OF fr] have "i < length rs" by simp
    with assms have "is_Many (row_c (rs ! i))"
      by (simp add: list_all_length)
    then obtain cs where "row_c (rs ! i) = Many cs"
      by (auto simp: is_Many_iff)
    with locate_found [OF fr] show ?thesis by simp
  qed
qed

lemma setCell_success_cases:
  assumes "setCell s a v k = (Inr (), s')"
  obtains rs ti ci rs1 sis where "valid_cell_name a" "s_data s = Many rs"
    "locate rs a = (Inr (ti, ci), rs1)" "s_stringTable s = Many sis"
proof -
  have va: "valid_cell_name a"
    using assms setCell_invalid [of a s v k] by auto
  obtain rs where rs: "s_data s = Many rs"
    using assms va setCell_rows_not_Many [of a s v k] by (cases "s_data s") auto
  obtain res rs1 where l: "locate rs a = (res, rs1)"
    by (cases "locate rs a") auto
  obtain ti ci where res: "res = Inr (ti, ci)"
    using assms va rs l setCell_locate_error [of a s rs _ rs1 v k] by (cases res) auto
  obtain sis where "s_stringTable s = Many sis"
    using assms va rs l res setCell_table_not_Many [of a s rs ti ci rs1 v k]
    by (cases "s_stringTable s") auto
  with va rs l res that show ?thesis by blast
qed

lemma table_lookup_Num:
  "idx < length sis \<Longrightarrow> si_t (sis ! idx) = Some str \<Longrightarrow> str \<noteq> [] \<Longrightarrow>
   table_lookup (map si_t sis) (Some (Num (int idx))) = Some str"
  by (simp add: table_lookup_def array_index_def)

section \<open>Writing a string and reading it back\<close>

text \<open>
  Claim C1, as amended. For every cell name and every string that is not empty: whenever
  setCell with the default string kind returns, getCell of the same name on the Sheet it
  leaves behind returns that string; and setCell does return on every Sheet whose rows,
  cells and shared strings are arrays, if the name is valid.
\<close>

theorem setCell_then_getCell_string:
  assumes "str \<noteq> []"
  shows "(\<forall>s'. setCell s a (Str str) KString = (Inr (), s') \<longrightarrow> getCell s' a = Inr (Some str)) \<and>
         (valid_cell_name a \<and> all_sequences s \<longrightarrow>
            (\<exists>s'. setCell s a (Str str) KString = (Inr (), s')))"
proof (intro conjI allI impI)
  fix s'
  assume ok: "setCell s a (Str str) KString = (Inr (), s')"
  then obtain rs ti ci rs1 sis where va: "valid_cell_name a" and rs: "s_data s = Many rs"
    and l: "locate rs a = (Inr (ti, ci), rs1)" and sis: "s_stringTable s = Many sis"
    by (rule setCell_success_cases)
  let ?s1 = "s\<lparr>s_data := Many rs1\<rparr>"
  let ?old = "case table_lookup (map si_t sis) (cell_v (row_cells (rs1 ! ti) ! ci)) of
                Some t \<Rightarrow> t | None \<Rightarrow> []"
  from sis have "s_stringTable ?s1 = Many sis" by simp
  from getSharedString_result [OF this, of "?old" str] obtain idx sis' where
    g: "getSharedString ?s1 ?old str = (Inr idx, ?s1\<lparr>s_stringTable := Many sis'\<rparr>)"
    and idx: "idx < length sis'" "si_t (sis' ! idx) = Some str"
    by blast
  let ?s2 = "?s1\<lparr>s_stringTable := Many sis'\<rparr>"
  from setCell_string [OF va rs l sis g] ok
  have s': "s' = write_cell ?s2 ti ci (\<lambda>c. c\<lparr>cell_v := Some (Num (int idx)), cell_t := Some ''s''\<rparr>)"
    by simp
  have "getCell s' a = Inr (table_lookup (map si_t sis')
          (cell_v ((row_cells (rs1 ! ti) ! ci)\<lparr>cell_v := Some (Num (int idx)), cell_t := Some ''s''\<rparr>)))"
    unfolding s' using va locate_target [OF l]
    by (intro getCell_write_cell) (simp_all add: target_at_def)
  with idx assms show "getCell s' a = Inr (Some str)"
    by (simp add: table_lookup_Num)
next
  assume "valid_cell_name a \<and> all_sequences s"
  then have va: "valid_cell_name a" and seq: "all_sequences s" by simp_all
  from seq obtain rs sis where rs: "s_data s = Many rs" "list_all (\<lambda>r. is_Many (row_c r)) rs"
    and sis: "s_stringTable s = Many sis"
    by (auto simp: all_sequences_def is_Many_iff split: child.splits)
  from locate_no_error [OF rs(2)] obtain ti ci rs1 where l: "locate rs a = (Inr (ti, ci), rs1)"
    by blast
  let ?s1 = "s\<lparr>s_data := Many rs1\<rparr>"
  let ?old = "case table_lookup (map si_t sis) (cell_v (row_cells (rs1 ! ti) ! ci)) of
                Some t \<Rightarrow> t | None \<Rightarrow> []"
  from sis have "s_stringTable ?s1 = Many sis" by simp
  from getSharedString_result [OF this, of "?old" str] obtain idx sis' where
    g: "getSharedString ?s1 ?old str = (Inr idx, ?s1\<lparr>s_stringTable := Many sis'\<rparr>)"
    by blast
  from setCell_string [OF va rs(1) l sis g]
  show "\<exists>s'. setCell s a (Str str) KString = (Inr (), s')" by blast
qed

theorem setCell_then_getCell_string_witness:
  "fst (setCell example_sheet ''C5'' (Str ''bar'') KString) = Inr () \<and>
   getCell (snd (setCell example_sheet ''C5'' (Str ''bar'') KString)) ''C5'' = Inr (Some ''bar'')"
proof -
  have ne: "''bar'' \<noteq> []" by simp
  have va: "valid_cell_name ''C5''"
    by (simp add: valid_cell_name_def is_upper_def is_digit_def)
  have sq: "all_sequences example_sheet"
    by (simp add: all_sequences_def example_sheet_def example_rows_def)
  from setCell_then_getCell_string [OF ne, of example_sheet "''C5''"] va sq
  obtain s' where s': "setCell example_sheet ''C5'' (Str ''bar'') KString = (Inr (), s')"
    and "getCell s' ''C5'' = Inr (Some ''bar'')"
    by blast
  then show ?thesis by simp
qed

text \<open>
  The claim as stated fails for the empty string: the write succeeds and the read returns
  null, since \<^verbatim>\<open>stringTable[_cell.v] || null\<close> turns the empty text into null.
\<close>

theorem setCell_then_getCell_empty_string_counterexample:
  "fst (setCell example_sheet ''A1'' (Str []) KString) = Inr () \<and>
   getCell (snd (setCell example_sheet ''A1'' (Str []) KString)) ''A1'' = Inr None"
  by code_simp

section \<open>What a failing call leaves behind\<close>




section \<open>The shared-string step\<close>





section \<open>The accepted cell names\<close>

lemma digit_not_upper: "is_digit ch \<Longrightarrow> \<not> is_upper ch"
  by (auto simp: is_digit_def is_upper_def)

lemma valid_cell_name_grammar: "valid_cell_name a \<longleftrightarrow> cell_address_grammar a"
proof
  assume v: "valid_cell_name a"
  have "a = takeWhile is_upper a @ dropWhile is_upper a" by simp
  moreover have "list_all is_upper (takeWhile is_upper a)"
    by (simp add: list_all_iff) (meson set_takeWhileD)
  ultimately show "cell_address_grammar a"
    using v unfolding cell_address_grammar_def valid_cell_name_def Let_def by blast
next
  assume "cell_address_grammar a"
  then obtain cols ds where a: "a = cols @ ds" and ne: "cols \<noteq> []" "ds \<noteq> []"
    and up: "list_all is_upper cols" and dg: "list_all is_digit ds"
    unfolding cell_address_grammar_def by blast
  from ne(2) obtain d ds' where ds: "ds = d # ds'" by (cases ds) auto
  with dg have "\<not> is_upper d" by (simp add: digit_not_upper)
  with ds have tw: "takeWhile is_upper ds = []" and dw: "dropWhile is_upper ds = ds" by simp_all
  from up have all: "\<forall>x\<in>set cols. is_upper x" by (simp add: list_all_iff)
  from all tw have "takeWhile is_upper a = cols"
    unfolding a by (simp add: takeWhile_append2)
  moreover from all dw have "dropWhile is_upper a = ds"
    unfolding a by (simp add: dropWhile_append2)
  ultimately show "valid_cell_name a"
    using ne dg by (simp add: valid_cell_name_def)
qed

text \<open>
  Claim C8, as amended. getCell and setCell accept exactly the names made of one or more
  uppercase letters followed by one or more digits. Every other name makes both throw
  before anything is read or written, setCell leaving the Sheet as it was; so it is for
  \<^verbatim>\<open>1A\<close>, \<^verbatim>\<open>A\<close> and the empty name. That the digits denote a positive number is not checked.
\<close>

theorem invalid_cell_name_rejected:
  "(valid_cell_name a \<longleftrightarrow> cell_address_grammar a) \<and>
   (\<not> cell_address_grammar a \<longrightarrow>
      getCell s a = Inl InvalidCellName \<and> setCell s a v k = (Inl InvalidCellName, s)) \<and>
   \<not> cell_address_grammar ''1A'' \<and> \<not> cell_address_grammar ''A'' \<and> \<not> cell_address_grammar []"
proof -
  have "\<not> valid_cell_name ''1A''" "\<not> valid_cell_name ''A''" "\<not> valid_cell_name []"
    by (simp_all add: valid_cell_name_def is_upper_def is_digit_def)
  then have "\<not> cell_address_grammar ''1A'' \<and> \<not> cell_address_grammar ''A'' \<and> \<not> cell_address_grammar []"
    by (simp add: valid_cell_name_grammar)
  moreover have "getCell s a = Inl InvalidCellName \<and> setCell s a v k = (Inl InvalidCellName, s)"
    if "\<not> cell_address_grammar a"
    using that by (simp add: valid_cell_name_grammar [symmetric] getCell_def setCell_invalid)
  ultimately show ?thesis
    using valid_cell_name_grammar [of a] by blast
qed

theorem invalid_cell_name_rejected_witness:
  "getCell example_sheet ''1A'' = Inl InvalidCellName \<and>
   setCell example_sheet ''1A'' (Str ''x'') KString = (Inl InvalidCellName, example_sheet) \<and>
   getCell example_sheet ''A'' = Inl InvalidCellName \<and>
   setCell example_sheet [] (Str ''x'') KString = (Inl InvalidCellName, example_sheet)"
  using invalid_cell_name_rejected [of "''1A''" example_sheet "Str ''x''" KString]
    invalid_cell_name_rejected [of "''A''" example_sheet "Str ''x''" KString]
    invalid_cell_name_rejected [of "[]" example_sheet "Str ''x''" KString]
  by simp

text \<open>
  The claim as stated fails for \<^verbatim>\<open>A0\<close>: the pattern \<^verbatim>\<open>/^[A-Z]+\d+$/\<close> accepts it, getCell
  returns null for it and setCell writes the cell, in a new row numbered 0.
\<close>

theorem row_zero_accepted_counterexample:
  "valid_cell_name ''A0'' \<and>
   getCell example_sheet ''A0'' = Inr None \<and>
   fst (setCell example_sheet ''A0'' (Str ''x'') KString) = Inr () \<and>
   s_data (snd (setCell example_sheet ''A0'' (Str ''x'') KString)) =
     Many (example_rows @ [\<lparr>row_r = Num 0, row_c = Many [shared_cell ''A0'' 2]\<rparr>])"
  by code_simp

section \<open>The value kinds of one cell\<close>

text \<open>
  Claim C3 at its failing input. A formula is written to C5 and then a string: the string
  branch sets \<^verbatim>\<open>v\<close> and \<^verbatim>\<open>@_t\<close> and leaves \<^verbatim>\<open>f\<close>, so the cell ends with the formula
  and the shared string together. (The formula branch does delete \<^verbatim>\<open>v\<close> and \<^verbatim>\<open>@_t\<close>.)
\<close>

theorem formula_then_string_keeps_formula:
  "snd (setCell (snd (setCell example_sheet ''C5'' (Str ''=A1'') KFormula)) ''C5'' (Str ''x'') KString) =
     \<lparr>s_index = 0,
      s_data = Many (example_rows @
        [\<lparr>row_r = Num 5,
          row_c = Many [\<lparr>cell_r = ''C5'', cell_v = Some (Num 2), cell_t = Some ''s'',
                         cell_f = Some (Str ''=A1'')\<rparr>]\<rparr>]),
      s_stringTable = Many [\<lparr>si_t = Some ''foo''\<rparr>, \<lparr>si_t = Some ''baz''\<rparr>, \<lparr>si_t = Some ''x''\<rparr>]\<rparr>"
  by code_simp

section \<open>The target row\<close>

text \<open>
  Claim C5 at its failing input. The first row of the example, numbered 1, holds A1 and
  B1. Writing C1 finds no row that holds a cell named C1 and appends a second row
  numbered 1.
\<close>

theorem new_cell_in_existing_row_appends_row:
  "row_r (example_rows ! 0) = Str ''1'' \<and>
   s_data (snd (setCell example_sheet ''C1'' (Str ''x'') KString)) =
     Many (example_rows @ [\<lparr>row_r = Num 1, row_c = Many [shared_cell ''C1'' 2]\<rparr>])"
  by code_simp

section \<open>Cells that share an offset\<close>

lemma find_row_of_scan:
  "scan_rows rs a = Inr (Some c) \<Longrightarrow> \<exists>i. find_row rs a = Inr (Some i)"
proof (induction rs)
  case Nil
  then show ?case by simp
next
  case (Cons r rs)
  show ?case
  proof (cases "scan_cells (cells r) a")
    case (Inl e)
    with Cons.prems show ?thesis by simp
  next
    case (Inr found)
    show ?thesis
    proof (cases found)
      case None
      with Inr Cons.prems have "scan_rows rs a = Inr (Some c)" by simp
      from Cons.IH [OF this] obtain i where "find_row rs a = Inr (Some i)" by blast
      with Inr None show ?thesis by simp
    next
      case (Some c')
      with Inr show ?thesis by simp
    qed
  qed
qed

lemma scan_cells_update_other:
  "ci < length cs \<Longrightarrow> cell_r (cs ! ci) \<noteq> b \<Longrightarrow> cell_r c' \<noteq> b \<Longrightarrow>
   scan_cells (map Some (cs[ci := c'])) b = scan_cells (map Some cs) b"
proof (induction cs arbitrary: ci)
  case Nil
  then show ?case by simp
next
  case (Cons c cs)
  show ?case
  proof (cases ci)
    case 0
    with Cons.prems show ?thesis by simp
  next
    case (Suc ci')
    with Cons.prems have "scan_cells (map Some (cs[ci' := c'])) b = scan_cells (map Some cs) b"
      by (intro Cons.IH) auto
    with Suc show ?thesis by simp
  qed
qed

lemma scan_rows_update_other:
  "ti < length rs \<Longrightarrow> scan_cells (cells r') b = scan_cells (cells (rs ! ti)) b \<Longrightarrow>
   scan_rows (rs[ti := r']) b = scan_rows rs b"
proof (induction rs arbitrary: ti)
  case Nil
  then show ?case by simp
next
  case (Cons r rs)
  show ?case
  proof (cases ti)
    case 0
    with Cons.prems show ?thesis by simp
  next
    case (Suc ti')
    with Cons.prems have "scan_rows (rs[ti' := r']) b = scan_rows rs b"
      by (intro Cons.IH) auto
    with Suc show ?thesis by (simp split: sum.splits option.splits)
  qed
qed

lemma scan_rows_set_cell_other:
  assumes "target_at rs a ti ci" and "a \<noteq> b" and "cell_r (upd (row_cells (rs ! ti) ! ci)) = a"
  shows "scan_rows (set_cell rs ti ci upd) b = scan_rows rs b"
proof -
  let ?cs = "row_cells (rs ! ti)"
  from assms(1) have ti: "ti < length rs" and many: "row_c (rs ! ti) = Many ?cs"
    and ci: "ci < length ?cs" and r: "cell_r (?cs ! ci) = a"
    by (simp_all add: target_at_def)
  from ci r assms(2,3) have "scan_cells (map Some (?cs[ci := upd (?cs ! ci)])) b =
      scan_cells (map Some ?cs) b"
    by (intro scan_cells_update_other) auto
  with many have "scan_cells (cells ((rs ! ti)\<lparr>row_c := Many (?cs[ci := upd (?cs ! ci)])\<rparr>)) b =
      scan_cells (cells (rs ! ti)) b"
    by (simp add: cells_def)
  from scan_rows_update_other [OF ti this] show ?thesis
    by (simp add: set_cell_def)
qed

lemma table_lookup_offset:
  "cell_offset c = Some k \<Longrightarrow> k < length sis \<Longrightarrow>
   table_lookup (map si_t sis) (cell_v c) =
     (case si_t (sis ! k) of None \<Rightarrow> None | Some t \<Rightarrow> if t = [] then None else Some t)"
  by (auto simp: cell_offset_def table_lookup_def split: option.splits)

text \<open>
  Claim C2, as amended. Let the cells named \<open>a1\<close> and \<open>a2\<close> both read the table at offset
  \<open>k\<close>, let the text there be \<open>old\<close>, and let \<open>k\<close> be the first offset with that text. Then
  on a Sheet whose rows, cells and shared strings are arrays, setCell of \<open>a1\<close> to a
  non-empty string returns, overwrites entry \<open>k\<close> in place and changes no other entry,
  and getCell of \<open>a2\<close> returns the new string, as getCell of \<open>a1\<close> does.
\<close>

theorem shared_offset_repointed:
  assumes "all_sequences s" and "s_data s = Many rs" and "s_stringTable s = Many sis"
    and "scan_rows rs a1 = Inr (Some c1)" and "scan_rows rs a2 = Inr (Some c2)"
    and "cell_offset c1 = Some k" and "cell_offset c2 = Some k"
    and "k < length sis" and "si_t (sis ! k) = Some old"
    and "\<forall>j<k. si_t (sis ! j) \<noteq> Some old"
    and "valid_cell_name a1" and "valid_cell_name a2" and "a1 \<noteq> a2" and "new \<noteq> []"
  shows "\<exists>s'. setCell s a1 (Str new) KString = (Inr (), s') \<and>
           s_stringTable s' = Many (sis[k := \<lparr>si_t = Some new\<rparr>]) \<and>
           getCell s' a2 = Inr (Some new) \<and> getCell s' a1 = Inr (Some new)"
proof -
  from assms(1,2) have rows: "list_all (\<lambda>r. is_Many (row_c r)) rs"
    by (simp add: all_sequences_def)
  from locate_no_error [OF rows] obtain ti ci rs1 where l: "locate rs a1 = (Inr (ti, ci), rs1)"
    by blast
  from find_row_of_scan [OF assms(4)] obtain i where fr: "find_row rs a1 = Inr (Some i)"
    by blast
  from l locate_found [OF fr] have rs1: "rs1 = rs"
    by (auto split: child.splits)
  from locate_target [OF l] rs1 have tg: "target_at rs a1 ti ci" by simp
  let ?c = "row_cells (rs ! ti) ! ci"
  from scan_target [OF tg] assms(4) have c1: "c1 = ?c" by simp
  from assms(2) have s1: "s\<lparr>s_data := Many rs\<rparr> = s" by (cases s) simp
  have cur: "(case table_lookup (map si_t sis) (cell_v ?c) of Some t \<Rightarrow> t | None \<Rightarrow> []) = old"
    using table_lookup_offset [OF assms(6,8)] assms(9) c1 by simp
  have "indexOf (map si_t sis) old = Some k"
    using assms(8,9,10) by (intro indexOf_first) simp_all
  with assms(3) have g: "getSharedString s old new =
      (Inr k, s\<lparr>s_stringTable := Many (sis[k := \<lparr>si_t = Some new\<rparr>])\<rparr>)"
    by (simp add: getSharedString_Many)
  let ?sis' = "sis[k := \<lparr>si_t = Some new\<rparr>]"
  let ?s2 = "s\<lparr>s_stringTable := Many ?sis'\<rparr>"
  let ?upd = "\<lambda>c. c\<lparr>cell_v := Some (Num (int k)), cell_t := Some ''s''\<rparr>"
  let ?s' = "write_cell ?s2 ti ci ?upd"
  from l rs1 have l': "locate rs a1 = (Inr (ti, ci), rs)" by simp
  have g': "getSharedString (s\<lparr>s_data := Many rs\<rparr>)
      (case table_lookup (map si_t sis) (cell_v (row_cells (rs ! ti) ! ci)) of
         Some t \<Rightarrow> t | None \<Rightarrow> []) new = (Inr k, ?s2)"
    using g cur s1 by simp
  from setCell_string [OF assms(11,2) l' assms(3) g']
  have ok: "setCell s a1 (Str new) KString = (Inr (), ?s')" .
  have d2: "s_data ?s2 = Many rs" and t2: "s_stringTable ?s2 = Many ?sis'"
    using assms(2) by simp_all
  have tbl: "s_stringTable ?s' = Many ?sis'"
    using d2 by (simp add: write_cell_def)
  have keep: "cell_r (?upd ?c) = a1"
    using tg by (simp add: target_at_def)
  have entry: "k < length ?sis'" "si_t (?sis' ! k) = Some new"
    using assms(8) by simp_all
  have "getCell ?s' a1 = Inr (table_lookup (map si_t ?sis') (cell_v (?upd ?c)))"
    using assms(11) d2 t2 tg keep by (rule getCell_write_cell)
  with entry assms(14) have r1: "getCell ?s' a1 = Inr (Some new)"
    by (simp add: table_lookup_Num)
  have "scan_rows (set_cell rs ti ci ?upd) a2 = scan_rows rs a2"
    using tg assms(13) keep by (rule scan_rows_set_cell_other)
  with assms(5) have "scan_rows (set_cell rs ti ci ?upd) a2 = Inr (Some c2)" by simp
  moreover have "s_data ?s' = Many (set_cell rs ti ci ?upd)"
    using d2 by (simp add: write_cell_def)
  ultimately have "getCell ?s' a2 = Inr (table_lookup (map si_t ?sis') (cell_v c2))"
    using assms(12) tbl by (simp add: getCell_def)
  with table_lookup_offset [OF assms(7) entry(1)] entry(2) assms(14)
  have r2: "getCell ?s' a2 = Inr (Some new)" by simp
  from ok tbl r1 r2 show ?thesis by blast
qed

theorem shared_offset_repointed_witness:
  "fst (setCell example_sheet ''A1'' (Str ''bar'') KString) = Inr () \<and>
   s_stringTable (snd (setCell example_sheet ''A1'' (Str ''bar'') KString)) =
     Many [\<lparr>si_t = Some ''bar''\<rparr>, \<lparr>si_t = Some ''baz''\<rparr>] \<and>
   getCell (snd (setCell example_sheet ''A1'' (Str ''bar'') KString)) ''A2'' = Inr (Some ''bar'')"
proof -
  let ?sis = "[\<lparr>si_t = Some ''foo''\<rparr>, \<lparr>si_t = Some ''baz''\<rparr>]"
  have h1: "all_sequences example_sheet"
    by (simp add: all_sequences_def example_sheet_def example_rows_def)
  have h2: "s_data example_sheet = Many example_rows"
    and h3: "s_stringTable example_sheet = Many ?sis"
    by (simp_all add: example_sheet_def)
  have h4: "scan_rows example_rows ''A1'' = Inr (Some (shared_cell ''A1'' 0))"
    and h5: "scan_rows example_rows ''A2'' = Inr (Some (shared_cell ''A2'' 0))"
    by (simp_all add: example_rows_def cells_def shared_cell_def)
  have h6: "cell_offset (shared_cell ''A1'' 0) = Some 0"
    and h7: "cell_offset (shared_cell ''A2'' 0) = Some 0"
    by (simp_all add: cell_offset_def shared_cell_def array_index_def)
  have h8: "0 < length ?sis" and h9: "si_t (?sis ! 0) = Some ''foo''"
    and h10: "\<forall>j<0. si_t (?sis ! j) \<noteq> Some ''foo''"
    by simp_all
  have h11: "valid_cell_name ''A1''" and h12: "valid_cell_name ''A2''"
    by (simp_all add: valid_cell_name_def is_upper_def is_digit_def)
  have h13: "''A1'' \<noteq> ''A2''" and h14: "''bar'' \<noteq> []" by simp_all
  from shared_offset_repointed [OF h1 h2 h3 h4 h5 h6 h7 h8 h9 h10 h11 h12 h13 h14]
  obtain s' where "setCell example_sheet ''A1'' (Str ''bar'') KString = (Inr (), s')"
    "s_stringTable s' = Many (?sis[0 := \<lparr>si_t = Some ''bar''\<rparr>])"
    "getCell s' ''A2'' = Inr (Some ''bar'')"
    by blast
  then show ?thesis by simp
qed

text \<open>
  The claim as stated fails when the shared offset is not the first one with that text.
  In the table foo, foo the cells A1 and A2 both read offset 1. Writing bar to A1 overwrites
  offset 0, the first foo, and points A1 there; A2 still reads foo at offset 1.
\<close>

theorem shared_offset_not_first_counterexample:
  "scan_rows duplicate_rows ''A1'' = Inr (Some (shared_cell ''A1'' 1)) \<and>
   scan_rows duplicate_rows ''A2'' = Inr (Some (shared_cell ''A2'' 1)) \<and>
   getCell duplicate_sheet ''A1'' = Inr (Some ''foo'') \<and>
   getCell duplicate_sheet ''A2'' = Inr (Some ''foo'') \<and>
   fst (setCell duplicate_sheet ''A1'' (Str ''bar'') KString) = Inr () \<and>
   s_stringTable (snd (setCell duplicate_sheet ''A1'' (Str ''bar'') KString)) =
     Many [\<lparr>si_t = Some ''bar''\<rparr>, \<lparr>si_t = Some ''foo''\<rparr>] \<and>
   getCell (snd (setCell duplicate_sheet ''A1'' (Str ''bar'') KString)) ''A2'' = Inr (Some ''foo'')"
  by code_simp

section \<open>Reading cells that hold no shared string\<close>






section \<open>Bare children\<close>

lemma cells_normalize_row: "cells (normalize_row r) = cells r"
  by (cases "row_c r") (simp_all add: normalize_row_def cells_def)

lemma scan_rows_normalize: "scan_rows (map normalize_row rs) a = scan_rows rs a"
  by (induction rs) (simp_all add: cells_normalize_row split: sum.splits option.splits)

lemma find_row_normalize: "find_row (map normalize_row rs) a = find_row rs a"
  by (induction rs) (simp_all add: cells_normalize_row split: sum.splits option.splits)

text \<open>
  getCell wraps a row's bare cell into a one-element array before it searches, and so
  returns the same on a tree as on that tree with every bare cell put into an array.
\<close>

lemma getCell_normalize_cells: "getCell (normalize_cells s) a = getCell s a"
  by (cases "s_data s")
     (simp_all add: normalize_cells_def getCell_def scan_rows_normalize split: child.splits)

text \<open>
  Claim C10 at its failing inputs. The wrapping \<^verbatim>\<open>Array.isArray(row.c) ? row.c : [row.c]\<close>
  is applied to a row's cells in getCell and in setCell's search for the target row, and
  to nothing else. On a sheet of one row, which the parser returns bare, getCell and
  setCell throw; on a table of one shared string getCell throws; and where the target
  row's only cell is bare, setCell's second lookup \<^verbatim>\<open>target.c.find\<close> throws. On the same
  trees with the one row, the one string or the one cell held in an array, each call
  returns.
\<close>

theorem bare_children_throw:
  "getCell one_row_sheet ''A1'' = Inl TypeError \<and>
   fst (setCell one_row_sheet ''A1'' (Str ''x'') KString) = Inl TypeError \<and>
   getCell (one_row_sheet\<lparr>s_data := Many [hd example_rows]\<rparr>) ''A1'' = Inr (Some ''foo'') \<and>
   fst (setCell (one_row_sheet\<lparr>s_data := Many [hd example_rows]\<rparr>) ''A1'' (Str ''x'') KString) =
     Inr () \<and>
   getCell one_string_sheet ''A1'' = Inl TypeError \<and>
   getCell (one_string_sheet\<lparr>s_stringTable := Many [\<lparr>si_t = Some ''foo''\<rparr>]\<rparr>) ''A1'' =
     Inr (Some ''foo'') \<and>
   getCell bare_cell_sheet ''B1'' = Inr (Some ''baz'') \<and>
   fst (setCell bare_cell_sheet ''B1'' (Str ''x'') KString) = Inl TypeError \<and>
   fst (setCell (normalize_cells bare_cell_sheet) ''B1'' (Str ''x'') KString) = Inr () \<and>
   getCell (snd (setCell (normalize_cells bare_cell_sheet) ''B1'' (Str ''x'') KString)) ''B1'' =
     Inr (Some ''x'')"
  by code_simp

section \<open>What a write keeps and where it lands, in general\<close>

lemma find_row_of_scan_None: "scan_rows rs a = Inr None \<Longrightarrow> find_row rs a = Inr None"
proof (induction rs)
  case Nil
  then show ?case by simp
next
  case (Cons r rs)
  then show ?case
    by (cases "scan_cells (cells r) a") (auto split: option.splits)
qed

text \<open>
  A string written over a cell that is there keeps the cell's \<^verbatim>\<open>f\<close>: the string branch of
  setCell assigns \<^verbatim>\<open>v\<close> and \<^verbatim>\<open>@_t\<close> only. So a formula cell overwritten with a string
  holds its formula and a shared string together.
\<close>

lemma setCell_string_keeps_formula:
  assumes "s_data s = Many rs" and "scan_rows rs a = Inr (Some c)"
    and "setCell s a (Str str) KString = (Inr (), s')"
  shows "\<exists>rs' c'. s_data s' = Many rs' \<and> scan_rows rs' a = Inr (Some c') \<and>
           cell_f c' = cell_f c \<and> cell_t c' = Some ''s'' \<and> (\<exists>idx. cell_v c' = Some (Num idx))"
proof -
  from assms(3) obtain rs0 ti ci rs1 sis where va: "valid_cell_name a"
    and rs0: "s_data s = Many rs0" and l0: "locate rs0 a = (Inr (ti, ci), rs1)"
    and sis: "s_stringTable s = Many sis"
    by (rule setCell_success_cases)
  from rs0 assms(1) l0 have l: "locate rs a = (Inr (ti, ci), rs1)" by simp
  from find_row_of_scan [OF assms(2)] obtain i where fr: "find_row rs a = Inr (Some i)"
    by blast
  from l locate_found [OF fr] have rs1: "rs1 = rs"
    by (auto split: child.splits)
  from locate_target [OF l] rs1 have tg: "target_at rs a ti ci" by simp
  let ?c = "row_cells (rs ! ti) ! ci"
  from scan_target [OF tg] assms(2) have c: "c = ?c" by simp
  let ?s1 = "s\<lparr>s_data := Many rs1\<rparr>"
  let ?old = "case table_lookup (map si_t sis) (cell_v (row_cells (rs1 ! ti) ! ci)) of
                Some t \<Rightarrow> t | None \<Rightarrow> []"
  from sis have "s_stringTable ?s1 = Many sis" by simp
  from getSharedString_result [OF this, of "?old" str] obtain idx sis' where
    g: "getSharedString ?s1 ?old str = (Inr idx, ?s1\<lparr>s_stringTable := Many sis'\<rparr>)"
    by blast
  let ?upd = "\<lambda>c. c\<lparr>cell_v := Some (Num (int idx)), cell_t := Some ''s''\<rparr>"
  from setCell_string [OF va assms(1) l sis g] assms(3) rs1
  have s': "s' = write_cell (s\<lparr>s_data := Many rs, s_stringTable := Many sis'\<rparr>) ti ci ?upd"
    by simp
  then have d: "s_data s' = Many (set_cell rs ti ci ?upd)"
    by (simp add: write_cell_def)
  have keep: "cell_r (?upd ?c) = a"
    using tg by (simp add: target_at_def)
  from set_cell_target [of rs a ti ci ?upd, OF tg keep]
  have "target_at (set_cell rs ti ci ?upd) a ti ci"
    and "row_cells (set_cell rs ti ci ?upd ! ti) ! ci = ?upd ?c"
    by simp_all
  with scan_target [of "set_cell rs ti ci ?upd" a ti ci]
  have "scan_rows (set_cell rs ti ci ?upd) a = Inr (Some (?upd ?c))" by simp
  with d c show ?thesis by simp
qed

text \<open>
  A write to a name that no cell of the sheet has appends a row, whatever the rows'
  own numbers are: the search never reads them.
\<close>

lemma setCell_new_name_appends_row:
  assumes "s_data s = Many rs" and "scan_rows rs a = Inr None"
    and "setCell s a v k = (Inr (), s')"
  shows "\<exists>c. cell_r c = a \<and>
           s_data s' = Many (rs @ [\<lparr>row_r = Num (row_number a), row_c = Many [c]\<rparr>])"
proof -
  let ?row = "\<lparr>row_r = Num (row_number a), row_c = Many [new_cell a]\<rparr>"
  let ?rs1 = "rs @ [?row]"
  from assms(3) obtain rs0 ti ci rs1 sis where va: "valid_cell_name a"
    and rs0: "s_data s = Many rs0" and l0: "locate rs0 a = (Inr (ti, ci), rs1)"
    and sis: "s_stringTable s = Many sis"
    by (rule setCell_success_cases)
  from locate_new [OF find_row_of_scan_None [OF assms(2)]]
  have l: "locate rs a = (Inr (length rs, 0), ?rs1)" .
  have sc: "set_cell ?rs1 (length rs) 0 upd =
      rs @ [\<lparr>row_r = Num (row_number a), row_c = Many [upd (new_cell a)]\<rparr>]" for upd
    by (simp add: set_cell_def row_cells_def)
  let ?s1 = "s\<lparr>s_data := Many ?rs1\<rparr>"
  show ?thesis
  proof (cases k)
    case KFormula
    let ?upd = "\<lambda>c. c\<lparr>cell_f := Some v, cell_v := None, cell_t := None\<rparr>"
    from setCell_formula [OF va assms(1) l sis, of v] assms(3) KFormula
    have "s' = write_cell ?s1 (length rs) 0 ?upd" by simp
    then have "s_data s' = Many (rs @ [\<lparr>row_r = Num (row_number a),
        row_c = Many [?upd (new_cell a)]\<rparr>])"
      by (simp add: write_cell_def sc)
    moreover have "cell_r (?upd (new_cell a)) = a" by (simp add: new_cell_def)
    ultimately show ?thesis by blast
  next
    case KString
    show ?thesis
    proof (cases v)
      case (Num n)
      let ?upd = "\<lambda>c. c\<lparr>cell_v := Some (Str (toString n)), cell_t := None\<rparr>"
      from setCell_number [OF va assms(1) l sis, of n] assms(3) KString Num
      have "s' = write_cell ?s1 (length rs) 0 ?upd" by simp
      then have "s_data s' = Many (rs @ [\<lparr>row_r = Num (row_number a),
          row_c = Many [?upd (new_cell a)]\<rparr>])"
        by (simp add: write_cell_def sc)
      moreover have "cell_r (?upd (new_cell a)) = a" by (simp add: new_cell_def)
      ultimately show ?thesis by blast
    next
      case (Str str)
      let ?old = "case table_lookup (map si_t sis) (cell_v (row_cells (?rs1 ! length rs) ! 0)) of
                Some t \<Rightarrow> t | None \<Rightarrow> []"
      from sis have "s_stringTable ?s1 = Many sis" by simp
      from getSharedString_result [OF this, of "?old" str] obtain idx sis' where
        g: "getSharedString ?s1 ?old str = (Inr idx, ?s1\<lparr>s_stringTable := Many sis'\<rparr>)"
        by blast
      let ?upd = "\<lambda>c. c\<lparr>cell_v := Some (Num (int idx)), cell_t := Some ''s''\<rparr>"
      from setCell_string [OF va assms(1) l sis g] assms(3) KString Str
      have "s' = write_cell (?s1\<lparr>s_stringTable := Many sis'\<rparr>) (length rs) 0 ?upd" by simp
      then have "s_data s' = Many (rs @ [\<lparr>row_r = Num (row_number a),
          row_c = Many [?upd (new_cell a)]\<rparr>])"
        by (simp add: write_cell_def sc)
      moreover have "cell_r (?upd (new_cell a)) = a" by (simp add: new_cell_def)
      ultimately show ?thesis by blast
    qed
  qed
qed

section \<open>Saving the workbook\<close>

lemma sheet_path_inj: "sheet_path i = sheet_path j \<Longrightarrow> i = j"
  using string_of_nat_inj [of "i + 1" "j + 1"] by (simp add: sheet_path_def)

lemma sheet_path_not_sharedStrings: "sheet_path i \<noteq> ''xl/sharedStrings.xml''"
  by (simp add: sheet_path_def)

lemma filter_update_other:
  "\<not> P key \<Longrightarrow>
   filter (\<lambda>entry. P (fst entry)) (AList.update key v al) = filter (\<lambda>entry. P (fst entry)) al"
  by (induction al) auto

lemma write_sheets_other:
  "key \<notin> sheet_path ` fst ` set shs \<Longrightarrow> map_of (write_sheets cd shs f) key = map_of f key"
proof (induction shs arbitrary: f)
  case Nil
  then show ?case by simp
next
  case (Cons p shs)
  obtain i t where p: "p = (i, t)" by (cases p)
  from Cons.prems p have "key \<noteq> sheet_path i" "key \<notin> sheet_path ` fst ` set shs"
    by auto
  with Cons.IH p show ?case
    by (simp add: update_conv')
qed

lemma write_sheets_written:
  "distinct (map fst shs) \<Longrightarrow> (i, t) \<in> set shs \<Longrightarrow>
   map_of (write_sheets cd shs f) (sheet_path i) = Some (encode cd (build cd (Some t)))"
proof (induction shs arbitrary: f)
  case Nil
  then show ?case by simp
next
  case (Cons p shs)
  obtain j u where p: "p = (j, u)" by (cases p)
  show ?case
  proof (cases "(i, t) = (j, u)")
    case True
    with Cons.prems p have "i \<notin> fst ` set shs" by auto
    then have "sheet_path i \<notin> sheet_path ` fst ` set shs"
      using sheet_path_inj by auto
    from write_sheets_other [OF this] True p show ?thesis
      by (simp add: update_conv')
  next
    case False
    with Cons.prems p have "(i, t) \<in> set shs" "distinct (map fst shs)" by auto
    with Cons.IH p show ?thesis by simp
  qed
qed

lemma write_sheets_filter:
  "\<forall>i\<in>fst ` set shs. \<not> P (sheet_path i) \<Longrightarrow>
   filter (\<lambda>entry. P (fst entry)) (write_sheets cd shs f) = filter (\<lambda>entry. P (fst entry)) f"
proof (induction shs arbitrary: f)
  case Nil
  then show ?case by simp
next
  case (Cons p shs)
  obtain i t where p: "p = (i, t)" by (cases p)
  from Cons.prems p have "\<not> P (sheet_path i)" "\<forall>i\<in>fst ` set shs. \<not> P (sheet_path i)"
    by auto
  with Cons.IH p show ?case
    by (simp add: filter_update_other)
qed

text \<open>
  Claim C9. Let load have set \<^verbatim>\<open>_file\<close>, and let \<^verbatim>\<open>_sheets\<close> hold one tree per index, as
  a Map does. Then saveBuffer returns the archive of an entry set in which, for every index
  \<open>i\<close> of \<^verbatim>\<open>_sheets\<close>, the entry \<^verbatim>\<open>xl/worksheets/sheet(i+1).xml\<close> is the encoded
  serialization of the tree held for \<open>i\<close>, the entry \<^verbatim>\<open>xl/sharedStrings.xml\<close> is that of the
  shared strings, and every other entry has the bytes it had, the untouched entries in
  their order.
\<close>

theorem saveBuffer_entries:
  assumes "w_file w = Some f" and "distinct (map fst (w_sheets w))"
  shows "\<exists>f'. saveBuffer cd w = (Inr (zipSync cd f'), w\<lparr>w_file := Some f'\<rparr>) \<and>
           (\<forall>(i, tree) \<in> set (w_sheets w).
              map_of f' (''xl/worksheets/sheet'' @ string_of_nat (i + 1) @ ''.xml'') =
                Some (encode cd (build cd (Some tree)))) \<and>
           map_of f' ''xl/sharedStrings.xml'' = Some (encode cd (build cd (w_sharedStrings w))) \<and>
           (\<forall>key. untouched w key \<longrightarrow> map_of f' key = map_of f key) \<and>
           filter (\<lambda>entry. untouched w (fst entry)) f' = filter (\<lambda>entry. untouched w (fst entry)) f"
proof -
  let ?f1 = "write_sheets cd (w_sheets w) f"
  let ?f2 = "AList.update ''xl/sharedStrings.xml'' (encode cd (build cd (w_sharedStrings w))) ?f1"
  have res: "saveBuffer cd w = (Inr (zipSync cd ?f2), w\<lparr>w_file := Some ?f2\<rparr>)"
    using assms(1) by (simp add: saveBuffer_def Let_def)
  have sheets: "\<forall>(i, tree) \<in> set (w_sheets w).
      map_of ?f2 (''xl/worksheets/sheet'' @ string_of_nat (i + 1) @ ''.xml'') =
        Some (encode cd (build cd (Some tree)))"
  proof (intro ballI, clarify)
    fix i tree
    assume "(i, tree) \<in> set (w_sheets w)"
    from write_sheets_written [OF assms(2) this, of cd f]
    have "map_of ?f2 (sheet_path i) = Some (encode cd (build cd (Some tree)))"
      using sheet_path_not_sharedStrings [of i] by (simp add: update_conv')
    then show "map_of ?f2 (''xl/worksheets/sheet'' @ string_of_nat (i + 1) @ ''.xml'') =
        Some (encode cd (build cd (Some tree)))"
      by (simp add: sheet_path_def)
  qed
  have shared: "map_of ?f2 ''xl/sharedStrings.xml'' = Some (encode cd (build cd (w_sharedStrings w)))"
    by (simp add: update_conv')
  have other: "\<forall>key. untouched w key \<longrightarrow> map_of ?f2 key = map_of f key"
    by (simp add: untouched_def update_conv' write_sheets_other)
  have "filter (\<lambda>entry. untouched w (fst entry)) ?f2 = filter (\<lambda>entry. untouched w (fst entry)) ?f1"
    by (rule filter_update_other) (simp add: untouched_def)
  also have "\<dots> = filter (\<lambda>entry. untouched w (fst entry)) f"
    by (rule write_sheets_filter) (simp add: untouched_def)
  finally have order: "filter (\<lambda>entry. untouched w (fst entry)) ?f2 =
      filter (\<lambda>entry. untouched w (fst entry)) f" .
  from res sheets shared other order show ?thesis by blast
qed

theorem saveBuffer_entries_witness:
  "map_of (the (w_file (snd (saveBuffer example_codec example_book)))) ''xl/worksheets/sheet1.xml'' =
     Some (encode example_codec (build example_codec (Some ''<worksheet/>''))) \<and>
   map_of (the (w_file (snd (saveBuffer example_codec example_book)))) ''xl/sharedStrings.xml'' =
     Some (encode example_codec (build example_codec (Some ''<sst/>''))) \<and>
   map_of (the (w_file (snd (saveBuffer example_codec example_book)))) ''xl/styles.xml'' = Some [2]"
proof -
  let ?f = "[(''xl/worksheets/sheet1.xml'', [1::nat]), (''xl/styles.xml'', [2]),
             (''xl/sharedStrings.xml'', [3])]"
  have h1: "w_file example_book = Some ?f"
    and h2: "distinct (map fst (w_sheets example_book))"
    by (simp_all add: example_book_def)
  from saveBuffer_entries [OF h1 h2, of example_codec] obtain f' where
    res: "saveBuffer example_codec example_book =
            (Inr (zipSync example_codec f'), example_book\<lparr>w_file := Some f'\<rparr>)"
    and sheets: "\<forall>(i, tree) \<in> set (w_sheets example_book).
              map_of f' (''xl/worksheets/sheet'' @ string_of_nat (i + 1) @ ''.xml'') =
                Some (encode example_codec (build example_codec (Some tree)))"
    and shared: "map_of f' ''xl/sharedStrings.xml'' =
            Some (encode example_codec (build example_codec (w_sharedStrings example_book)))"
    and other: "\<forall>key. untouched example_book key \<longrightarrow> map_of f' key = map_of ?f key"
    by blast
  from res have f': "the (w_file (snd (saveBuffer example_codec example_book))) = f'"
    by simp
  have one: "string_of_nat (0 + 1) = ''1''"
    by (simp add: string_of_nat.simps digit_char_def)
  have "(0, ''<worksheet/>'') \<in> set (w_sheets example_book)"
    by (simp add: example_book_def)
  with sheets have a: "map_of f' ''xl/worksheets/sheet1.xml'' =
      Some (encode example_codec (build example_codec (Some ''<worksheet/>'')))"
    using one by fastforce
  from shared have b: "map_of f' ''xl/sharedStrings.xml'' =
      Some (encode example_codec (build example_codec (Some ''<sst/>'')))"
    by (simp add: example_book_def)
  have "untouched example_book ''xl/styles.xml''"
    by (simp add: untouched_def example_book_def sheet_path_def)
  with other have c: "map_of f' ''xl/styles.xml'' = Some [2]"
    by simp
  from a b c show ?thesis unfolding f' by simp
qed

section \<open>Loading the workbook\<close>

lemma load_sheets_distinct:
  "distinct (map fst acc) \<Longrightarrow> load_sheets cd f options keys i acc = Inr shs \<Longrightarrow>
   distinct (map fst shs)"
proof (induction keys arbitrary: i acc)
  case Nil
  then show ?case by simp
next
  case (Cons key keys)
  show ?case
  proof (cases "excluded options i")
    case True
    with Cons.prems Cons.IH [of acc "Suc i"] show ?thesis by simp
  next
    case False
    with Cons.prems obtain sheetFile where sf: "map_of f key = Some sheetFile"
      by (cases "map_of f key") auto
    let ?acc = "AList.update i (parse cd (decode cd sheetFile)) acc"
    from Cons.prems(1) have "distinct (map fst ?acc)" by (rule distinct_update)
    moreover from Cons.prems(2) False sf have "load_sheets cd f options keys (Suc i) ?acc = Inr shs"
      by simp
    ultimately show ?thesis by (rule Cons.IH)
  qed
qed

text \<open>
  After a load that succeeds on a new workbook, \<^verbatim>\<open>_file\<close> is the unzipped entry set and
  \<^verbatim>\<open>_sheets\<close> holds one tree per index: what the theorem on saveBuffer asks for.
\<close>

lemma load_then_saveBuffer_ready:
  assumes "load cd (TinyExcel_new path) file_exists unzipped options = (Inr (), w)"
  shows "w_file w = Some unzipped \<and> distinct (map fst (w_sheets w))"
proof -
  from assms obtain sharedStrings shs where
    ss: "map_of unzipped ''xl/sharedStrings.xml'' = Some sharedStrings"
    and ls: "load_sheets cd unzipped options (sheet_keys unzipped) 0 [] = Inr shs"
    and w: "w = (TinyExcel_new path)\<lparr>w_file := Some unzipped, w_sheets := shs,
              w_sharedStrings := Some (parse cd (decode cd sharedStrings))\<rparr>"
    by (auto simp: load_def TinyExcel_new_def Let_def split: if_splits option.splits sum.splits)
  from load_sheets_distinct [OF _ ls] have "distinct (map fst shs)" by simp
  with w show ?thesis by simp
qed

text \<open>
  The index of a sheet is its position among the worksheet entries as the archive lists
  them, while saveBuffer names the entry after the index. On an archive that lists
  \<^verbatim>\<open>sheet2.xml\<close> before \<^verbatim>\<open>sheet1.xml\<close>, index 0 holds the tree of \<^verbatim>\<open>sheet2.xml\<close>, and
  saveBuffer writes that tree to \<^verbatim>\<open>sheet1.xml\<close>.
\<close>

lemma load_index_is_listing_position:
  "w_sheets (snd (load cd (TinyExcel_new ''book.xlsx'') True swapped_archive None)) =
     [(0, parse cd (decode cd [2])), (1, parse cd (decode cd [1]))] \<and>
   map_of (the (w_file (snd (saveBuffer cd
       (snd (load cd (TinyExcel_new ''book.xlsx'') True swapped_archive None))))))
     ''xl/worksheets/sheet1.xml'' =
     Some (encode cd (build cd (Some (parse cd (decode cd [2])))))"
  by (simp add: load_def TinyExcel_new_def swapped_archive_def endsWith_def sheet_keys_def
      startsWith_def excluded_def saveBuffer_def sheet_path_def string_of_nat.simps
      digit_char_def Let_def)

end
